theory Spec2Isabelle
  imports Complex_Main
begin

section \<open>Flow graph builder (components/TraceViewer.jsx)\<close>

subsection \<open>Data\<close>

text \<open>
  A step of a trace as \<^verbatim>\<open>updateFlow\<close> reads it: \<^verbatim>\<open>step.name\<close>, \<^verbatim>\<open>step.step_type\<close>
  and \<^verbatim>\<open>step.status\<close>. The status may be absent (\<open>None\<close>).
\<close>

record step =
  name :: string
  step_type :: string
  status :: "string option"

text \<open>The object returned by \<^verbatim>\<open>getNodeStyle\<close>.\<close>

record node_style =
  background :: string
  borderRadius :: string
  border :: string
  padding :: string
  minWidth :: string
  maxWidth :: string
  color :: string
  cursor :: string
  fontSize :: string
  fontWeight :: nat
  boxShadow :: string

text \<open>
  A node pushed to \<^verbatim>\<open>newNodes\<close>. The JSX label shows \<^verbatim>\<open>step.name\<close> and
  \<^verbatim>\<open>step.step_type\<close>; it is kept as that pair. The position is \<open>(x, y)\<close>.
\<close>

record flow_node =
  node_id :: string
  position :: "nat \<times> nat"
  label :: "string \<times> string"
  style :: node_style
  draggable :: bool

record marker =
  marker_type :: string
  width :: nat
  height :: nat
  marker_color :: string

text \<open>An edge pushed to \<^verbatim>\<open>newEdges\<close>; \<open>stroke\<close> and \<open>strokeWidth\<close> are its style.\<close>

record flow_edge =
  edge_id :: string
  source :: string
  target :: string
  edge_type :: string
  stroke :: string
  strokeWidth :: nat
  markerEnd :: marker

text \<open>The parsed body of \<^verbatim>\<open>GET /api/traces/{id}\<close>, as far as the viewer's builder reads it.\<close>

record trace_doc =
  trace_name :: string
  steps :: "step list option"

text \<open>The component state of \<^verbatim>\<open>TraceViewer\<close> (its four \<^verbatim>\<open>useState\<close> cells).\<close>

record viewer =
  trace :: "trace_doc option"
  selectedStep :: "nat option"
  nodes :: "flow_node list"
  edges :: "flow_edge list"

subsection \<open>Decimal rendering of an index in a template literal\<close>

definition digit :: "nat \<Rightarrow> char" where
  "digit d = ''0123456789'' ! d"

function String_nat :: "nat \<Rightarrow> string" where
  "String_nat n =
     (if n < 10 then [digit n] else String_nat (n div 10) @ [digit (n mod 10)])"
  by pat_completeness auto
termination
  by (relation "measure id") auto

declare String_nat.simps [simp del]

subsection \<open>The builder\<close>

definition getNodeStyle :: "string \<Rightarrow> string \<Rightarrow> bool \<Rightarrow> node_style" where
  "getNodeStyle st nodeColor isSelected =
     \<lparr> background =
         ''linear-gradient(135deg, '' @ nodeColor @ ''15 0%, '' @ nodeColor @ ''08 100%)'',
       borderRadius = ''8px'',
       border = ''1.5px solid '' @ (if isSelected then ''#818cf8'' else nodeColor @ ''40''),
       padding = ''10px 12px'',
       minWidth = ''140px'',
       maxWidth = ''180px'',
       color = ''#e5e7eb'',
       cursor = ''grab'',
       fontSize = ''11px'',
       fontWeight = 500,
       boxShadow =
         (if isSelected then ''0 4px 12px rgba(129, 140, 248, 0.2)''
          else ''0 2px 8px rgba(0, 0, 0, 0.3)'') \<rparr>"

text \<open>\<^verbatim>\<open>step.status || 'success'\<close>: an absent or empty status is falsy.\<close>

definition status_or_success :: "step \<Rightarrow> string" where
  "status_or_success s =
     (case status s of None \<Rightarrow> ''success''
      | Some t \<Rightarrow> if t = [] then ''success'' else t)"

text \<open>Lines 40 to 43: the colour starts green and the chain of \<^verbatim>\<open>===\<close> tests overrides it.\<close>

definition nodeColor :: "string \<Rightarrow> string" where
  "nodeColor st =
     (if st = ''error'' then ''#ef4444''
      else if st = ''warning'' then ''#f59e0b''
      else if st = ''partial'' then ''#3b82f6''
      else ''#10b981'')"

definition new_node :: "nat option \<Rightarrow> step \<Rightarrow> nat \<Rightarrow> flow_node" where
  "new_node sel s index =
     \<lparr> node_id = ''step-'' @ String_nat index,
       position = (250, index * 100 + 50),
       label = (name s, step_type s),
       style = getNodeStyle (status_or_success s) (nodeColor (status_or_success s))
                 (sel = Some index),
       draggable = True \<rparr>"

definition new_edge :: "step \<Rightarrow> nat \<Rightarrow> flow_edge" where
  "new_edge s index =
     \<lparr> edge_id = ''edge-'' @ String_nat index,
       source = ''step-'' @ String_nat (index - 1),
       target = ''step-'' @ String_nat index,
       edge_type = ''smoothstep'',
       stroke = nodeColor (status_or_success s) @ ''60'',
       strokeWidth = 2,
       markerEnd =
         \<lparr> marker_type = ''ArrowClosed'', width = 18, height = 18,
           marker_color = nodeColor (status_or_success s) @ ''60'' \<rparr> \<rparr>"

text \<open>
  \<^verbatim>\<open>steps.forEach((step, index) => ...)\<close>: the callback pushes one node, and one edge
  when \<^verbatim>\<open>index > 0\<close>. The accumulator is \<^verbatim>\<open>(newNodes, newEdges)\<close>.
\<close>

fun forEach_step ::
  "nat option \<Rightarrow> step list \<Rightarrow> nat \<Rightarrow> flow_node list \<times> flow_edge list
     \<Rightarrow> flow_node list \<times> flow_edge list" where
  "forEach_step sel [] index acc = acc"
| "forEach_step sel (s # rest) index (newNodes, newEdges) =
     forEach_step sel rest (Suc index)
       (newNodes @ [new_node sel s index],
        if index > 0 then newEdges @ [new_edge s index] else newEdges)"

definition updateFlow :: "step list \<Rightarrow> viewer \<Rightarrow> viewer" where
  "updateFlow ss v =
     (case forEach_step (selectedStep v) ss 0 ([], []) of
        (newNodes, newEdges) \<Rightarrow> v\<lparr>nodes := newNodes, edges := newEdges\<rparr>)"

subsection \<open>Fetching a trace\<close>

text \<open>
  What the two awaits of \<^verbatim>\<open>fetchTrace\<close> can deliver: \<^verbatim>\<open>fetch\<close> rejects,
  \<^verbatim>\<open>res.json()\<close> rejects, or a value is parsed. The parsed value is \<open>None\<close> for JSON
  \<^verbatim>\<open>null\<close>; \<open>steps\<close>, when present, is taken to be an array of steps.
\<close>

datatype fetch_result = FetchRejected | JsonRejected | Parsed "trace_doc option"

datatype exn = NetworkError | SyntaxError | TypeError

text \<open>
  The body of the \<^verbatim>\<open>try\<close> block: the exception thrown, if any, and the component
  state at that point. On \<^verbatim>\<open>null\<close> data \<^verbatim>\<open>setTrace(data)\<close> has run before
  \<^verbatim>\<open>data.steps\<close> throws. \<^verbatim>\<open>data.steps || []\<close> replaces an absent list by the empty one.
\<close>

definition fetchTrace_try :: "fetch_result \<Rightarrow> viewer \<Rightarrow> exn option \<times> viewer" where
  "fetchTrace_try r v =
     (case r of
        FetchRejected \<Rightarrow> (Some NetworkError, v)
      | JsonRejected \<Rightarrow> (Some SyntaxError, v)
      | Parsed None \<Rightarrow> (Some TypeError, v\<lparr>trace := None\<rparr>)
      | Parsed (Some d) \<Rightarrow>
          (None, updateFlow (case steps d of None \<Rightarrow> [] | Some ss \<Rightarrow> ss)
                   (v\<lparr>trace := Some d\<rparr>)))"

text \<open>
  \<^verbatim>\<open>fetchTrace\<close>: the \<^verbatim>\<open>catch\<close> clause logs the error and returns. The first component
  is the exception that leaves the routine.
\<close>

definition fetchTrace :: "fetch_result \<Rightarrow> viewer \<Rightarrow> exn option \<times> viewer" where
  "fetchTrace r v =
     (case fetchTrace_try r v of
        (Some e, v') \<Rightarrow> (None, v')
      | (None, v') \<Rightarrow> (None, v'))"

section \<open>Trace list (components/TraceList.jsx) and the display surface\<close>

text \<open>
  An element of the rendered document: tag, attributes (name and value) and child elements.
  Text nodes are left out: no selector matches them. React's \<^verbatim>\<open>key\<close> and event handlers
  are not attributes of the rendered element; \<^verbatim>\<open>className\<close> is rendered as \<^verbatim>\<open>class\<close>.
\<close>

datatype element = Element string "(string \<times> string) list" "element list"

record trace_summary =
  trace_id :: string
  summary_name :: string
  summary_status :: string

definition getStatusColor :: "string \<Rightarrow> string" where
  "getStatusColor st =
     (if st = ''completed'' then ''bg-emerald-500/20 text-emerald-400 border-emerald-500/30''
      else if st = ''error'' then ''bg-red-500/20 text-red-400 border-red-500/30''
      else if st = ''in_progress'' then ''bg-amber-500/20 text-amber-400 border-amber-500/30''
      else ''bg-gray-500/20 text-gray-400 border-gray-500/30'')"

definition icon :: "string \<Rightarrow> string \<Rightarrow> element" where
  "icon cls d =
     Element ''svg''
       [(''class'', cls), (''fill'', ''none''), (''stroke'', ''currentColor''),
        (''viewBox'', ''0 0 24 24'')]
       [Element ''path''
          [(''stroke-linecap'', ''round''), (''stroke-linejoin'', ''round''),
           (''stroke-width'', ''2''), (''d'', d)] []]"

text \<open>The element that \<^verbatim>\<open>traces.map\<close> renders for one trace (lines 58 to 100).\<close>

definition trace_entry :: "string option \<Rightarrow> trace_summary \<Rightarrow> element" where
  "trace_entry selectedTraceId t =
     Element ''div''
       [(''class'',
         ''group relative mb-2 p-3 rounded-lg border cursor-pointer transition-all '' @
         (if selectedTraceId = Some (trace_id t)
          then ''bg-[#1a1a1a] border-indigo-500/50 shadow-lg shadow-indigo-500/10''
          else ''bg-[#0f0f0f] border-[#1f1f1f] hover:bg-[#151515] hover:border-[#2a2a2a]''))]
       [Element ''div'' [(''class'', ''flex items-start justify-between gap-2 mb-2'')]
          [Element ''h3''
             [(''class'',
               ''text-sm font-medium text-gray-200 flex-1 line-clamp-2 group-hover:text-gray-100 transition-colors'')]
             [],
           Element ''span''
             [(''class'',
               ''px-2 py-0.5 rounded-md text-[10px] font-medium border flex-shrink-0 '' @
               getStatusColor (summary_status t))]
             []],
        Element ''div'' [(''class'', ''flex items-center gap-3 text-xs text-gray-500 mb-2'')]
          [Element ''span'' [(''class'', ''flex items-center gap-1'')]
             [icon ''w-3.5 h-3.5''
                ''M9 5H7a2 2 0 00-2 2v12a2 2 0 002 2h10a2 2 0 002-2V7a2 2 0 00-2-2h-2M9 5a2 2 0 002 2h2a2 2 0 002-2M9 5a2 2 0 012-2h2a2 2 0 012 2''],
           Element ''span'' [(''class'', ''flex items-center gap-1'')]
             [icon ''w-3.5 h-3.5'' ''M12 8v4l3 3m6-3a9 9 0 11-18 0 9 9 0 0118 0z'']],
        Element ''div'' [(''class'', ''mt-2 pt-2 border-t border-[#1f1f1f]'')]
          [Element ''code'' [(''class'', ''text-[10px] text-gray-600 font-mono'')] []]]"

text \<open>The entries of the list, one per trace, in order.\<close>

definition rendered_entries :: "string option \<Rightarrow> trace_summary list \<Rightarrow> element list" where
  "rendered_entries selectedTraceId traces = map (trace_entry selectedTraceId) traces"

definition empty_notice :: element where
  "empty_notice =
     Element ''div'' [(''class'', ''p-8 text-center'')]
       [Element ''div''
          [(''class'',
            ''w-12 h-12 bg-[#1f1f1f] rounded-lg flex items-center justify-center mx-auto mb-3'')]
          [icon ''w-6 h-6 text-gray-600''
             ''M9 12h6m-6 4h6m2 5H7a2 2 0 01-2-2V5a2 2 0 012-2h5.586a1 1 0 01.707.293l5.414 5.414a1 1 0 01.293.707V19a2 2 0 01-2 2z''],
        Element ''p'' [(''class'', ''text-sm font-medium text-gray-400 mb-1'')] [],
        Element ''p'' [(''class'', ''text-xs text-gray-600'')] []]"

definition TraceList :: "trace_summary list \<Rightarrow> string option \<Rightarrow> element" where
  "TraceList traces selectedTraceId =
     Element ''div'' [(''class'', ''flex flex-col h-full'')]
       [Element ''div'' [(''class'', ''px-4 py-4 border-b border-[#1f1f1f]'')]
          [Element ''h2'' [(''class'', ''text-sm font-semibold text-gray-200 mb-1'')] [],
           Element ''p'' [(''class'', ''text-xs text-gray-500'')] []],
        Element ''div'' [(''class'', ''flex-1 overflow-y-auto'')]
          [if length traces = 0 then empty_notice
           else Element ''div'' [(''class'', ''p-2'')]
                  (rendered_entries selectedTraceId traces)]]"

text \<open>
  \<^verbatim>\<open>querySelectorAll('[attr]')\<close> on a subtree: the elements that carry the attribute, in
  document order.
\<close>

fun querySelectorAll :: "string \<Rightarrow> element \<Rightarrow> element list" where
  "querySelectorAll a (Element tag attrs children) =
     (if a \<in> set (map fst attrs) then [Element tag attrs children] else []) @
     concat (map (querySelectorAll a) children)"

text \<open>Line 21 of the poller: \<^verbatim>\<open>document.querySelectorAll('[data-trace-id]')?.length || 0\<close>.\<close>

definition currentCount :: "element \<Rightarrow> nat" where
  "currentCount document =
     (let n = length (querySelectorAll ''data-trace-id'' document)
      in if n = 0 then 0 else n)"

section \<open>Adaptive poller (hooks/useTracePolling.jsx)\<close>

subsection \<open>State\<close>

text \<open>
  The three refs of the hook, together with the part of the host that the hook acts on:
  the interval timers that are armed (handle to period in milliseconds; the callback is
  always \<^verbatim>\<open>poll\<close>), the next handle \<^verbatim>\<open>setInterval\<close> hands out, the invocations of
  \<^verbatim>\<open>poll\<close> suspended at \<^verbatim>\<open>await fetchTraces()\<close> (each with the \<^verbatim>\<open>previousCount\<close> it
  read), the number of calls of \<^verbatim>\<open>fetchTraces\<close> so far, and whether an effect has
  returned a cleanup function that has not run yet.

  Periods are JavaScript numbers; the expression of line 27 is read over the rationals.
\<close>

record world =
  lastTraceCountRef :: nat
  intervalRef :: "nat option"
  consecutiveNoChangeRef :: nat
  timers :: "nat \<Rightarrow> rat option"
  nextHandle :: nat
  suspended :: "nat list"
  fetchCalls :: nat
  cleanupPending :: bool

text \<open>The component before its first effect runs. Timer handles are positive.\<close>

definition mounted :: world where
  "mounted =
     \<lparr> lastTraceCountRef = 0, intervalRef = None, consecutiveNoChangeRef = 0,
       timers = (\<lambda>h. None), nextHandle = 1, suspended = [], fetchCalls = 0,
       cleanupPending = False \<rparr>"

datatype fetch_outcome = Resolved | Rejected

datatype promise = Fulfilled | Failed

subsection \<open>Timers of the host\<close>

definition setInterval :: "rat \<Rightarrow> world \<Rightarrow> nat \<times> world" where
  "setInterval ms w =
     (nextHandle w,
      w\<lparr>timers := (timers w)(nextHandle w := Some ms), nextHandle := Suc (nextHandle w)\<rparr>)"

definition clearInterval :: "nat \<Rightarrow> world \<Rightarrow> world" where
  "clearInterval h w = w\<lparr>timers := (timers w)(h := None)\<rparr>"

subsection \<open>The hook\<close>

text \<open>
  Lines 28 to 31 and 36 to 39: \<^verbatim>\<open>if (intervalRef.current) { clearInterval(...);
  intervalRef.current = setInterval(poll, ms) }\<close>. \<^verbatim>\<open>null\<close> and \<open>0\<close> are falsy.
\<close>

definition rearm :: "rat \<Rightarrow> world \<Rightarrow> world" where
  "rearm ms w =
     (case intervalRef w of
        None \<Rightarrow> w
      | Some h \<Rightarrow>
          if h = 0 then w
          else (case setInterval ms (clearInterval h w) of
                  (h', w') \<Rightarrow> w'\<lparr>intervalRef := Some h'\<rparr>))"

text \<open>Line 27.\<close>

definition newInterval :: "nat \<Rightarrow> rat" where
  "newInterval c = min 30000 (10000 * (1 + of_nat c / 3))"

text \<open>
  \<^verbatim>\<open>poll\<close> up to its await (lines 16 and 17): it reads \<^verbatim>\<open>previousCount\<close>, calls
  \<^verbatim>\<open>fetchTraces\<close> and suspends.
\<close>

definition poll_begin :: "world \<Rightarrow> world" where
  "poll_begin w =
     w\<lparr>suspended := suspended w @ [lastTraceCountRef w], fetchCalls := Suc (fetchCalls w)\<rparr>"

text \<open>
  \<^verbatim>\<open>poll\<close> after its await (lines 21 to 42), given the \<^verbatim>\<open>previousCount\<close> it read, how
  the fetch settled and the count the document shows then. There is no \<^verbatim>\<open>try\<close> in
  \<^verbatim>\<open>poll\<close>: a rejected fetch ends the invocation at the await, and the promise of
  \<^verbatim>\<open>poll\<close> is rejected. The result is that promise's fate and the state.
\<close>

definition poll_resume :: "nat \<Rightarrow> fetch_outcome \<Rightarrow> nat \<Rightarrow> world \<Rightarrow> promise \<times> world" where
  "poll_resume previousCount outcome count w =
     (case outcome of
        Rejected \<Rightarrow> (Failed, w)
      | Resolved \<Rightarrow>
          (Fulfilled,
           (if count = previousCount then
              (let w1 = w\<lparr>consecutiveNoChangeRef := consecutiveNoChangeRef w + 1\<rparr>
               in if consecutiveNoChangeRef w1 > 3
                  then rearm (newInterval (consecutiveNoChangeRef w1)) w1
                  else w1)
            else rearm 10000 (w\<lparr>consecutiveNoChangeRef := 0\<rparr>))
           \<lparr>lastTraceCountRef := count\<rparr>))"

text \<open>
  The effect (lines 13 to 49): nothing when disabled; otherwise the initial \<^verbatim>\<open>poll()\<close>,
  which runs up to its await, then the timer of 10 seconds, and a cleanup is returned.
\<close>

definition effect :: "bool \<Rightarrow> world \<Rightarrow> world" where
  "effect enabled w =
     (if \<not> enabled then w
      else (case setInterval 10000 (poll_begin w) of
              (h, w') \<Rightarrow> w'\<lparr>intervalRef := Some h, cleanupPending := True\<rparr>))"

text \<open>The cleanup (lines 51 to 55). It does not reset \<^verbatim>\<open>intervalRef.current\<close>.\<close>

definition cleanup :: "world \<Rightarrow> world" where
  "cleanup w =
     (case intervalRef w of
        None \<Rightarrow> w
      | Some h \<Rightarrow> if h = 0 then w else clearInterval h w)
     \<lparr>cleanupPending := False\<rparr>"

subsection \<open>The event loop\<close>

text \<open>
  What can happen to the hook, one event at a time (the host is single threaded):
  React runs the effect (only when no cleanup is pending: it runs the cleanup of the
  previous effect first), React runs the pending cleanup (a dependency changed, or the
  component is torn down), an armed timer fires and calls \<^verbatim>\<open>poll\<close>, or the fetch of the
  \<open>i\<close>-th suspended invocation settles while the document shows \<open>count\<close> entries.
  \<open>fire\<close> is \<open>None\<close> when the event cannot happen in that state.
\<close>

datatype event = Effect bool | Cleanup | Tick nat | Settle nat fetch_outcome nat

fun fire :: "event \<Rightarrow> world \<Rightarrow> world option" where
  "fire (Effect enabled) w = (if cleanupPending w then None else Some (effect enabled w))"
| "fire Cleanup w = (if cleanupPending w then Some (cleanup w) else None)"
| "fire (Tick h) w = (if timers w h = None then None else Some (poll_begin w))"
| "fire (Settle i outcome count) w =
     (if i < length (suspended w)
      then Some (snd (poll_resume (suspended w ! i) outcome count
                        (w\<lparr>suspended := take i (suspended w) @ drop (Suc i) (suspended w)\<rparr>)))
      else None)"

fun run :: "event list \<Rightarrow> world \<Rightarrow> world option" where
  "run [] w = Some w"
| "run (e # es) w = (case fire e w of None \<Rightarrow> None | Some w' \<Rightarrow> run es w')"

inductive reachable :: "world \<Rightarrow> bool" where
  start: "reachable mounted"
| after: "reachable w \<Longrightarrow> fire e w = Some w' \<Longrightarrow> reachable w'"

text \<open>The period of the timer that \<^verbatim>\<open>intervalRef.current\<close> names, when it is armed.\<close>

definition armed_period :: "world \<Rightarrow> rat option" where
  "armed_period w = (case intervalRef w of None \<Rightarrow> None | Some h \<Rightarrow> timers w h)"

text \<open>
  \<open>n\<close> timer-driven invocations in a row, none overlapping the next: the timer that
  \<^verbatim>\<open>intervalRef.current\<close> names fires, the invocation it starts is the last one suspended, and
  its fetch resolves, with \<open>count\<close> entries in the document, before anything else happens.
  The result lists the state after each invocation; it is \<open>None\<close> if a step cannot happen.
\<close>

fun quiet_polls :: "nat \<Rightarrow> nat \<Rightarrow> world \<Rightarrow> world list option" where
  "quiet_polls count 0 w = Some []"
| "quiet_polls count (Suc n) w =
     (case intervalRef w of
        None \<Rightarrow> None
      | Some h \<Rightarrow>
          (case fire (Tick h) w of
             None \<Rightarrow> None
           | Some w1 \<Rightarrow>
               (case fire (Settle (length (suspended w)) Resolved count) w1 of
                  None \<Rightarrow> None
                | Some w2 \<Rightarrow> map_option ((#) w2) (quiet_polls count n w2))))"

subsection \<open>Invariant of the reachable states\<close>

text \<open>
  The largest period the counter allows: the fast period up to 3, the period of line 27
  above.
\<close>

definition cap :: "nat \<Rightarrow> rat" where
  "cap c = (if c > 3 then newInterval c else 10000)"

text \<open>
  Handles are positive and below the next one; every armed timer has a period of at most
  30 seconds; while \<^verbatim>\<open>intervalRef.current\<close> is \<^verbatim>\<open>null\<close> nothing is suspended or armed; the
  timer that \<^verbatim>\<open>intervalRef.current\<close> names is within the period the counter allows.
\<close>

definition poller_inv :: "world \<Rightarrow> bool" where
  "poller_inv w \<longleftrightarrow>
     1 \<le> nextHandle w \<and>
     (\<forall>h p. timers w h = Some p \<longrightarrow> h < nextHandle w \<and> p \<le> 30000) \<and>
     (\<forall>h. intervalRef w = Some h \<longrightarrow> 1 \<le> h \<and> h < nextHandle w) \<and>
     (intervalRef w = None \<longrightarrow> suspended w = [] \<and> (\<forall>h. timers w h = None)) \<and>
     (\<forall>h p. intervalRef w = Some h \<and> timers w h = Some p \<longrightarrow> p \<le> cap (consecutiveNoChangeRef w))"

section \<open>Example inputs\<close>

text \<open>The example scenario of the specification, a list with one step per status case, and a
  viewer whose selected step is 1.\<close>

definition example_steps :: "step list" where
  "example_steps =
     [\<lparr>name = ''A'', step_type = ''input'', status = Some ''success''\<rparr>,
      \<lparr>name = ''B'', step_type = ''filter'', status = Some ''error''\<rparr>,
      \<lparr>name = ''C'', step_type = ''rank'', status = None\<rparr>]"

definition palette_steps :: "step list" where
  "palette_steps =
     map (\<lambda>st. \<lparr>name = ''s'', step_type = ''t'', status = st\<rparr>)
       [Some ''error'', Some ''warning'', Some ''partial'', Some ''success'', None,
        Some ''unknown-garbage'', Some ''Error'']"

definition example_viewer :: viewer where
  "example_viewer = \<lparr>trace = None, selectedStep = Some 1, nodes = [], edges = []\<rparr>"

text \<open>
  Runs of the poller. \<open>stable_prefix\<close> mounts the hook and lets three invocations in a row see
  an unchanged count, with the fourth suspended (\<open>stable3\<close>). Then either the fourth resolves
  unchanged (\<open>backoff4\<close>) and a later one sees a change (\<open>snapped\<close>), or the cleanup runs
  first (\<open>teardown_race\<close>, \<open>torn_down\<close>) and the fourth resolves after it (\<open>orphan_timer\<close>).
\<close>

definition stable_prefix :: "event list" where
  "stable_prefix =
     [Effect True, Settle 0 Resolved 0, Tick 1, Settle 0 Resolved 0, Tick 1,
      Settle 0 Resolved 0, Tick 1]"

definition stable3 :: world where
  "stable3 =
     \<lparr> lastTraceCountRef = 0, intervalRef = Some 1, consecutiveNoChangeRef = 3,
       timers = (\<lambda>h. None)(1 := Some 10000), nextHandle = 2, suspended = [0], fetchCalls = 4,
       cleanupPending = True \<rparr>"

definition backoff4 :: world where
  "backoff4 =
     \<lparr> lastTraceCountRef = 0, intervalRef = Some 2, consecutiveNoChangeRef = 4,
       timers = (\<lambda>h. None)(2 := Some (70000 / 3)), nextHandle = 3, suspended = [],
       fetchCalls = 4, cleanupPending = True \<rparr>"

definition snapped :: world where
  "snapped =
     \<lparr> lastTraceCountRef = 5, intervalRef = Some 3, consecutiveNoChangeRef = 0,
       timers = (\<lambda>h. None)(3 := Some 10000), nextHandle = 4, suspended = [],
       fetchCalls = 5, cleanupPending = True \<rparr>"

text \<open>
  Two invocations in flight at once: the initial one and the one of the first timer firing
  have both read \<^verbatim>\<open>previousCount\<close> 0; \<open>overlapped\<close> is the state after the first of them has
  resolved with 3 entries in the document.
\<close>

definition overlap_prefix :: "event list" where
  "overlap_prefix = [Effect True, Tick 1, Settle 0 Resolved 3]"

definition overlapped :: world where
  "overlapped =
     \<lparr> lastTraceCountRef = 3, intervalRef = Some 2, consecutiveNoChangeRef = 0,
       timers = (\<lambda>h. None)(2 := Some 10000), nextHandle = 3, suspended = [0], fetchCalls = 2,
       cleanupPending = True \<rparr>"

text \<open>Two traces for the trace list.\<close>

definition example_traces :: "trace_summary list" where
  "example_traces =
     [\<lparr>trace_id = ''7c9e6679-7425-40de-944b-e07fc1f90ae7'', summary_name = ''checkout'',
       summary_status = ''completed''\<rparr>,
      \<lparr>trace_id = ''550e8400-e29b-41d4-a716-446655440000'', summary_name = ''ranking'',
       summary_status = ''error''\<rparr>]"

definition teardown_race :: "event list" where
  "teardown_race =
     [Effect True, Settle 0 Resolved 0, Tick 1, Settle 0 Resolved 0, Tick 1,
      Settle 0 Resolved 0, Tick 1, Cleanup]"

definition torn_down :: world where
  "torn_down =
     \<lparr> lastTraceCountRef = 0, intervalRef = Some 1, consecutiveNoChangeRef = 3,
       timers = (\<lambda>h. None), nextHandle = 2, suspended = [0], fetchCalls = 4,
       cleanupPending = False \<rparr>"

definition orphan_timer :: world where
  "orphan_timer =
     \<lparr> lastTraceCountRef = 0, intervalRef = Some 2, consecutiveNoChangeRef = 4,
       timers = (\<lambda>h. None)(2 := Some (70000 / 3)), nextHandle = 3, suspended = [],
       fetchCalls = 4, cleanupPending = False \<rparr>"

section \<open>Properties of the flow graph builder\<close>

lemma forEach_step_acc:
  "forEach_step sel ss k (ns, es) =
     (ns @ map (\<lambda>(i, s). new_node sel s i) (enumerate k ss),
      es @ map (\<lambda>(i, s). new_edge s i) (filter (\<lambda>(i, s). 0 < i) (enumerate k ss)))"
  by (induction ss arbitrary: k ns es) auto

lemma filter_enumerate_Suc:
  "filter (\<lambda>(i, s). 0 < i) (enumerate (Suc k) xs) = enumerate (Suc k) xs"
  by (induction xs arbitrary: k) auto

lemma nodes_updateFlow:
  "nodes (updateFlow ss v) = map (\<lambda>(i, s). new_node (selectedStep v) s i) (enumerate 0 ss)"
  by (simp add: updateFlow_def forEach_step_acc)

lemma edges_updateFlow:
  "edges (updateFlow ss v) = map (\<lambda>(i, s). new_edge s i) (enumerate 1 (tl ss))"
  by (cases ss) (simp_all add: updateFlow_def forEach_step_acc filter_enumerate_Suc)

lemma nth_nodes_updateFlow:
  "i < length ss \<Longrightarrow> nodes (updateFlow ss v) ! i = new_node (selectedStep v) (ss ! i) i"
  by (simp add: nodes_updateFlow nth_enumerate_eq)

lemma nth_edges_updateFlow:
  "Suc j < length ss \<Longrightarrow> edges (updateFlow ss v) ! j = new_edge (ss ! Suc j) (Suc j)"
  by (cases ss) (simp_all add: edges_updateFlow nth_enumerate_eq)

lemma String_nat_nonempty: "String_nat n \<noteq> []"
  by (subst String_nat.simps) simp

lemma digit_zero: "d < 10 \<Longrightarrow> digit d = CHR ''0'' \<longleftrightarrow> d = 0"
proof -
  assume "d < 10"
  then have "d = 0 \<or> d = 1 \<or> d = 2 \<or> d = 3 \<or> d = 4 \<or> d = 5 \<or> d = 6 \<or> d = 7 \<or> d = 8 \<or> d = 9"
    by arith
  then show ?thesis by (auto simp: digit_def)
qed

lemma String_nat_zero: "String_nat n = ''0'' \<longleftrightarrow> n = 0"
proof (cases "n < 10")
  case True
  then show ?thesis by (subst String_nat.simps) (simp add: digit_zero)
next
  case False
  have "length (String_nat (n div 10)) \<ge> 1"
    using String_nat_nonempty [of "n div 10"] by (cases "String_nat (n div 10)") simp_all
  then have "length (String_nat n) \<ge> 2"
    using False by (subst String_nat.simps) simp
  then show ?thesis using False by auto
qed

text \<open>
  Claim C3. For a step sequence of length \<open>N\<close> (also \<open>N = 0\<close>) the builder leaves exactly
  \<open>N\<close> nodes, the \<open>i\<close>-th with identifier \<open>step-i\<close> at \<open>x = 250\<close>, \<open>y = i * 100 + 50\<close>, and
  exactly \<open>max 0 (N - 1)\<close> edges; for \<open>1 \<le> i < N\<close> edge \<open>edge-i\<close> goes from \<open>step-(i-1)\<close> to
  \<open>step-i\<close>; no edge has target \<open>step-0\<close>; on the empty sequence both lists are empty. The
  builder is a total function: no input makes it fail.
\<close>

theorem graph_chain:
  "length (nodes (updateFlow ss v)) = length ss \<and>
   (\<forall>i < length ss.
      node_id (nodes (updateFlow ss v) ! i) = ''step-'' @ String_nat i \<and>
      position (nodes (updateFlow ss v) ! i) = (250, i * 100 + 50)) \<and>
   int (length (edges (updateFlow ss v))) = max 0 (int (length ss) - 1) \<and>
   (\<forall>i. 1 \<le> i \<and> i < length ss \<longrightarrow>
      edge_id (edges (updateFlow ss v) ! (i - 1)) = ''edge-'' @ String_nat i \<and>
      source (edges (updateFlow ss v) ! (i - 1)) = ''step-'' @ String_nat (i - 1) \<and>
      target (edges (updateFlow ss v) ! (i - 1)) = ''step-'' @ String_nat i) \<and>
   (\<forall>e \<in> set (edges (updateFlow ss v)). target e \<noteq> ''step-0'') \<and>
   nodes (updateFlow [] v) = [] \<and> edges (updateFlow [] v) = []"
proof -
  have n: "length (nodes (updateFlow ss v)) = length ss"
    by (simp add: nodes_updateFlow)
  have ni: "\<forall>i < length ss.
      node_id (nodes (updateFlow ss v) ! i) = ''step-'' @ String_nat i \<and>
      position (nodes (updateFlow ss v) ! i) = (250, i * 100 + 50)"
    by (simp add: nth_nodes_updateFlow new_node_def)
  have e: "int (length (edges (updateFlow ss v))) = max 0 (int (length ss) - 1)"
    by (cases ss) (simp_all add: edges_updateFlow)
  have ei: "\<forall>i. 1 \<le> i \<and> i < length ss \<longrightarrow>
      edge_id (edges (updateFlow ss v) ! (i - 1)) = ''edge-'' @ String_nat i \<and>
      source (edges (updateFlow ss v) ! (i - 1)) = ''step-'' @ String_nat (i - 1) \<and>
      target (edges (updateFlow ss v) ! (i - 1)) = ''step-'' @ String_nat i"
  proof (intro allI impI)
    fix i assume "1 \<le> i \<and> i < length ss"
    then obtain j where j: "i = Suc j" "Suc j < length ss" by (cases i) auto
    show "edge_id (edges (updateFlow ss v) ! (i - 1)) = ''edge-'' @ String_nat i \<and>
      source (edges (updateFlow ss v) ! (i - 1)) = ''step-'' @ String_nat (i - 1) \<and>
      target (edges (updateFlow ss v) ! (i - 1)) = ''step-'' @ String_nat i"
      using j by (simp add: nth_edges_updateFlow new_edge_def)
  qed
  have t: "\<forall>e \<in> set (edges (updateFlow ss v)). target e \<noteq> ''step-0''"
    by (auto simp: edges_updateFlow new_edge_def in_set_enumerate_eq String_nat_zero)
  have z: "nodes (updateFlow [] v) = [] \<and> edges (updateFlow [] v) = []"
    by (simp add: updateFlow_def)
  from n ni e ei t z show ?thesis by blast
qed

lemma String_nat_digits:
  "String_nat 0 = ''0''" "String_nat (Suc 0) = ''1''" "String_nat 2 = ''2''"
  "String_nat (Suc (Suc 0)) = ''2''"
  by (simp_all add: String_nat.simps digit_def)

theorem graph_chain_witness:
  "length (nodes (updateFlow example_steps example_viewer)) = 3 \<and>
   (2 < length example_steps \<and>
    node_id (nodes (updateFlow example_steps example_viewer) ! 2) = ''step-2'' \<and>
    position (nodes (updateFlow example_steps example_viewer) ! 2) = (250, 250)) \<and>
   length (edges (updateFlow example_steps example_viewer)) = 2 \<and>
   ((1::nat) \<le> 2 \<and> 2 < length example_steps \<and>
    edge_id (edges (updateFlow example_steps example_viewer) ! (2 - 1)) = ''edge-2'' \<and>
    source (edges (updateFlow example_steps example_viewer) ! (2 - 1)) = ''step-1'' \<and>
    target (edges (updateFlow example_steps example_viewer) ! (2 - 1)) = ''step-2'') \<and>
   (edges (updateFlow example_steps example_viewer) ! 0
      \<in> set (edges (updateFlow example_steps example_viewer)) \<and>
    target (edges (updateFlow example_steps example_viewer) ! 0) \<noteq> ''step-0'')"
proof -
  note gc = graph_chain [of example_steps example_viewer]
  have len: "length example_steps = 3" by (simp add: example_steps_def)
  have two: "2 < length example_steps" "(1::nat) \<le> 2 \<and> 2 < length example_steps"
    by (simp_all add: len)
  from gc len have n: "length (nodes (updateFlow example_steps example_viewer)) = 3"
    by simp
  from gc two(1) have n2:
    "node_id (nodes (updateFlow example_steps example_viewer) ! 2) = ''step-'' @ String_nat 2 \<and>
     position (nodes (updateFlow example_steps example_viewer) ! 2) = (250, 2 * 100 + 50)"
    by blast
  from gc len have e: "length (edges (updateFlow example_steps example_viewer)) = 2"
    by simp
  from gc two(2) have e2:
    "edge_id (edges (updateFlow example_steps example_viewer) ! (2 - 1)) = ''edge-'' @ String_nat 2 \<and>
     source (edges (updateFlow example_steps example_viewer) ! (2 - 1)) = ''step-'' @ String_nat (2 - 1) \<and>
     target (edges (updateFlow example_steps example_viewer) ! (2 - 1)) = ''step-'' @ String_nat 2"
    by blast
  have mem: "edges (updateFlow example_steps example_viewer) ! 0
      \<in> set (edges (updateFlow example_steps example_viewer))"
    using e by (intro nth_mem) simp
  with gc have t: "target (edges (updateFlow example_steps example_viewer) ! 0) \<noteq> ''step-0''"
    by blast
  from n n2 e e2 mem t two show ?thesis
    by (simp add: String_nat_digits)
qed

text \<open>
  Claim C4. The colour of the node of a step is decided by exact equality tests on its
  status string: \<open>error\<close> gives \<open>#ef4444\<close>, \<open>warning\<close> gives \<open>#f59e0b\<close>, \<open>partial\<close> gives
  \<open>#3b82f6\<close>, and every other value, an absent status included, gives \<open>#10b981\<close>.
\<close>

theorem color_mapping:
  "i < length ss \<Longrightarrow>
   style (nodes (updateFlow ss v) ! i) =
     getNodeStyle (status_or_success (ss ! i))
       (if status (ss ! i) = Some ''error'' then ''#ef4444''
        else if status (ss ! i) = Some ''warning'' then ''#f59e0b''
        else if status (ss ! i) = Some ''partial'' then ''#3b82f6''
        else ''#10b981'')
       (selectedStep v = Some i)"
  by (auto simp: nth_nodes_updateFlow new_node_def nodeColor_def status_or_success_def
      split: option.splits)

theorem color_mapping_witness:
  "(0 < length palette_steps \<and>
    border (style (nodes (updateFlow palette_steps example_viewer) ! 0)) = ''1.5px solid #ef444440'') \<and>
   (1 < length palette_steps \<and>
    border (style (nodes (updateFlow palette_steps example_viewer) ! 1)) = ''1.5px solid #818cf8'' \<and>
    background (style (nodes (updateFlow palette_steps example_viewer) ! 1)) =
      ''linear-gradient(135deg, #f59e0b15 0%, #f59e0b08 100%)'') \<and>
   (2 < length palette_steps \<and>
    border (style (nodes (updateFlow palette_steps example_viewer) ! 2)) = ''1.5px solid #3b82f640'') \<and>
   (3 < length palette_steps \<and>
    border (style (nodes (updateFlow palette_steps example_viewer) ! 3)) = ''1.5px solid #10b98140'') \<and>
   (4 < length palette_steps \<and>
    border (style (nodes (updateFlow palette_steps example_viewer) ! 4)) = ''1.5px solid #10b98140'') \<and>
   (5 < length palette_steps \<and>
    border (style (nodes (updateFlow palette_steps example_viewer) ! 5)) = ''1.5px solid #10b98140'') \<and>
   (6 < length palette_steps \<and>
    border (style (nodes (updateFlow palette_steps example_viewer) ! 6)) = ''1.5px solid #10b98140'')"
  using color_mapping [of 0 palette_steps example_viewer]
    color_mapping [of 1 palette_steps example_viewer]
    color_mapping [of 2 palette_steps example_viewer]
    color_mapping [of 3 palette_steps example_viewer]
    color_mapping [of 4 palette_steps example_viewer]
    color_mapping [of 5 palette_steps example_viewer]
    color_mapping [of 6 palette_steps example_viewer]
  by (simp add: palette_steps_def example_viewer_def getNodeStyle_def)

text \<open>
  Claim C5. For \<open>i \<ge> 1\<close> the stroke and the arrow marker of edge \<open>edge-i\<close> carry the colour
  of the status of the step at index \<open>i\<close>, the target of the edge.
\<close>

theorem edge_color_from_target:
  "1 \<le> i \<Longrightarrow> i < length ss \<Longrightarrow>
   edge_id (edges (updateFlow ss v) ! (i - 1)) = ''edge-'' @ String_nat i \<and>
   stroke (edges (updateFlow ss v) ! (i - 1)) = nodeColor (status_or_success (ss ! i)) @ ''60'' \<and>
   marker_color (markerEnd (edges (updateFlow ss v) ! (i - 1))) =
     nodeColor (status_or_success (ss ! i)) @ ''60''"
  by (cases i) (simp_all add: nth_edges_updateFlow new_edge_def)

theorem edge_color_from_target_witness:
  "(1::nat) \<le> 1 \<and> 1 < length example_steps \<and>
   nodeColor (status_or_success (example_steps ! 0)) = ''#10b981'' \<and>
   nodeColor (status_or_success (example_steps ! 1)) = ''#ef4444'' \<and>
   edge_id (edges (updateFlow example_steps example_viewer) ! 0) = ''edge-1'' \<and>
   stroke (edges (updateFlow example_steps example_viewer) ! 0) = ''#ef444460'' \<and>
   marker_color (markerEnd (edges (updateFlow example_steps example_viewer) ! 0)) = ''#ef444460''"
  using edge_color_from_target [of 1 example_steps example_viewer]
  by (simp add: example_steps_def nodeColor_def status_or_success_def String_nat_digits)

text \<open>
  Claim C9. Running the builder a second time on the same steps leaves the state it left
  the first time; nodes and edges depend on the steps and the selected index only. When
  the selected index differs between two calls on the same steps, the edges are equal, and
  the nodes are equal in every field except the border and the box shadow of their style.
\<close>

theorem builder_deterministic:
  "updateFlow ss (updateFlow ss v) = updateFlow ss v \<and>
   (selectedStep v = selectedStep v' \<longrightarrow>
      nodes (updateFlow ss v) = nodes (updateFlow ss v') \<and>
      edges (updateFlow ss v) = edges (updateFlow ss v')) \<and>
   edges (updateFlow ss v) = edges (updateFlow ss v') \<and>
   map (\<lambda>n. n\<lparr>style := (style n)\<lparr>border := [], boxShadow := []\<rparr>\<rparr>) (nodes (updateFlow ss v)) =
   map (\<lambda>n. n\<lparr>style := (style n)\<lparr>border := [], boxShadow := []\<rparr>\<rparr>) (nodes (updateFlow ss v'))"
proof -
  have a: "updateFlow ss (updateFlow ss v) = updateFlow ss v"
    by (simp add: updateFlow_def split: prod.splits)
  have b: "selectedStep v = selectedStep v' \<longrightarrow>
      nodes (updateFlow ss v) = nodes (updateFlow ss v') \<and>
      edges (updateFlow ss v) = edges (updateFlow ss v')"
    by (simp add: nodes_updateFlow edges_updateFlow)
  have c: "edges (updateFlow ss v) = edges (updateFlow ss v')"
    by (simp add: edges_updateFlow)
  have d: "map (\<lambda>n. n\<lparr>style := (style n)\<lparr>border := [], boxShadow := []\<rparr>\<rparr>) (nodes (updateFlow ss v)) =
   map (\<lambda>n. n\<lparr>style := (style n)\<lparr>border := [], boxShadow := []\<rparr>\<rparr>) (nodes (updateFlow ss v'))"
    by (simp add: nodes_updateFlow new_node_def getNodeStyle_def split_def)
  from a b c d show ?thesis by blast
qed

theorem builder_deterministic_witness:
  "selectedStep example_viewer = selectedStep (example_viewer\<lparr>nodes := nodes (updateFlow palette_steps example_viewer)\<rparr>) \<and>
   nodes (updateFlow example_steps example_viewer) =
     nodes (updateFlow example_steps (example_viewer\<lparr>nodes := nodes (updateFlow palette_steps example_viewer)\<rparr>)) \<and>
   edges (updateFlow example_steps example_viewer) =
     edges (updateFlow example_steps (example_viewer\<lparr>selectedStep := None\<rparr>)) \<and>
   map node_id (nodes (updateFlow example_steps example_viewer)) = [''step-0'', ''step-1'', ''step-2''] \<and>
   border (style (nodes (updateFlow example_steps example_viewer) ! 1)) \<noteq>
   border (style (nodes (updateFlow example_steps (example_viewer\<lparr>selectedStep := None\<rparr>)) ! 1))"
proof -
  have e: "map node_id (nodes (updateFlow example_steps example_viewer)) = [''step-0'', ''step-1'', ''step-2'']"
    by (simp add: updateFlow_def example_steps_def new_node_def String_nat_digits)
  have f: "border (style (nodes (updateFlow example_steps example_viewer) ! 1)) \<noteq>
   border (style (nodes (updateFlow example_steps (example_viewer\<lparr>selectedStep := None\<rparr>)) ! 1))"
    by (simp add: updateFlow_def example_steps_def example_viewer_def new_node_def getNodeStyle_def)
  from builder_deterministic [of example_steps example_viewer
      "example_viewer\<lparr>nodes := nodes (updateFlow palette_steps example_viewer)\<rparr>"]
    builder_deterministic [of example_steps example_viewer "example_viewer\<lparr>selectedStep := None\<rparr>"]
    e f
  show ?thesis by simp
qed

text \<open>
  Claim C10. No exception leaves \<open>fetchTrace\<close>. When the fetch or the JSON parsing is rejected,
  the trace, the nodes and the edges stay as they were; the state changes only when a
  value was fetched and parsed.
\<close>

theorem fetchTrace_failure_contained:
  "fst (fetchTrace r v) = None \<and>
   (r = FetchRejected \<or> r = JsonRejected \<longrightarrow> snd (fetchTrace r v) = v) \<and>
   (snd (fetchTrace r v) \<noteq> v \<longrightarrow> (\<exists>d. r = Parsed d))"
  by (cases r) (auto simp: fetchTrace_def fetchTrace_try_def split: option.splits prod.splits)

theorem fetchTrace_failure_contained_witness:
  "fst (fetchTrace JsonRejected (updateFlow example_steps example_viewer)) = None \<and>
   (JsonRejected = FetchRejected \<or> JsonRejected = JsonRejected) \<and>
   snd (fetchTrace JsonRejected (updateFlow example_steps example_viewer)) =
     updateFlow example_steps example_viewer \<and>
   snd (fetchTrace (Parsed (Some \<lparr>trace_name = ''run'', steps = None\<rparr>))
          (updateFlow example_steps example_viewer)) \<noteq> updateFlow example_steps example_viewer \<and>
   (\<exists>d. Parsed (Some \<lparr>trace_name = ''run'', steps = None\<rparr>) = Parsed d)"
proof -
  have "trace (snd (fetchTrace (Parsed (Some \<lparr>trace_name = ''run'', steps = None\<rparr>))
          (updateFlow example_steps example_viewer))) \<noteq> trace (updateFlow example_steps example_viewer)"
    by (simp add: fetchTrace_def fetchTrace_try_def updateFlow_def example_viewer_def
        split: prod.splits)
  then have ne: "snd (fetchTrace (Parsed (Some \<lparr>trace_name = ''run'', steps = None\<rparr>))
          (updateFlow example_steps example_viewer)) \<noteq> updateFlow example_steps example_viewer"
    by auto
  from fetchTrace_failure_contained [of JsonRejected "updateFlow example_steps example_viewer"]
    fetchTrace_failure_contained [of "Parsed (Some \<lparr>trace_name = ''run'', steps = None\<rparr>)"
      "updateFlow example_steps example_viewer"] ne
  show ?thesis by simp
qed

section \<open>Properties of the adaptive poller\<close>

subsection \<open>Evaluation of the example runs\<close>

lemmas poller_defs = mounted_def effect_def cleanup_def poll_begin_def poll_resume_def rearm_def
  setInterval_def clearInterval_def armed_period_def

lemma newInterval_4: "newInterval 4 = 70000 / 3"
  by (simp add: newInterval_def)

lemma run_race: "run teardown_race mounted = Some torn_down"
  by (simp add: poller_defs teardown_race_def torn_down_def)

lemma run_append: "run (es @ es') w = (case run es w of None \<Rightarrow> None | Some w' \<Rightarrow> run es' w')"
  by (induction es arbitrary: w) (auto split: option.splits)

lemma fire_torn_down: "fire (Settle 0 Resolved 0) torn_down = Some orphan_timer"
  by (simp add: torn_down_def orphan_timer_def poller_defs newInterval_4)

lemma fire_orphan_timer: "fire (Tick 2) orphan_timer = Some (poll_begin orphan_timer)"
  by (simp add: orphan_timer_def)

subsection \<open>Teardown\<close>

text \<open>
  Claim C6. The claim is that after the cleanup no timer is armed and \<^verbatim>\<open>fetchTraces\<close> is never
  called again, whatever the interleaving. The run \<open>teardown_race\<close> ends with the cleanup
  while the fourth invocation is still suspended: four fetches so far, the timer cancelled.
  When that fetch then resolves with an unchanged count, the counter reaches 4,
  \<^verbatim>\<open>intervalRef.current\<close> still holds the cancelled handle, which is truthy, and a new timer
  is armed; when it fires, the fifth fetch is made.
\<close>

theorem teardown_then_fetch:
  "map_option fetchCalls (run teardown_race mounted) = Some 4 \<and>
   map_option cleanupPending (run teardown_race mounted) = Some False \<and>
   map_option (\<lambda>w. timers w 1) (run teardown_race mounted) = Some None \<and>
   map_option armed_period (run (teardown_race @ [Settle 0 Resolved 0]) mounted) = Some (Some (70000 / 3)) \<and>
   map_option fetchCalls (run (teardown_race @ [Settle 0 Resolved 0, Tick 2]) mounted) = Some 5"
  by (simp add: run_append run_race fire_torn_down fire_orphan_timer del: fire.simps)
    (simp add: torn_down_def orphan_timer_def poll_begin_def armed_period_def)

subsection \<open>The invariant holds in every reachable state\<close>

lemma newInterval_bounds: "10000 \<le> newInterval c" "newInterval c \<le> 30000"
  by (simp_all add: newInterval_def)

lemma newInterval_mono: "c \<le> c' \<Longrightarrow> newInterval c \<le> newInterval c'"
  by (simp add: newInterval_def min_le_iff_disj)

lemma cap_bounds: "10000 \<le> cap c" "cap c \<le> 30000"
  by (simp_all add: cap_def newInterval_bounds)

lemma cap_Suc: "cap c \<le> cap (Suc c)"
  by (simp add: cap_def newInterval_bounds newInterval_mono)

lemma cap_small: "c \<le> 3 \<Longrightarrow> cap c = 10000"
  by (simp add: cap_def)

lemma rearm_Some:
  "intervalRef w = Some h \<Longrightarrow> h \<noteq> 0 \<Longrightarrow>
   rearm ms w =
     w\<lparr>timers := ((timers w)(h := None))(nextHandle w := Some ms),
       nextHandle := Suc (nextHandle w), intervalRef := Some (nextHandle w)\<rparr>"
  by (simp add: rearm_def setInterval_def clearInterval_def)

lemma inv_mounted: "poller_inv mounted"
  by (simp add: poller_inv_def mounted_def)

lemma inv_effect: "poller_inv w \<Longrightarrow> poller_inv (effect enabled w)"
  by (auto simp: poller_inv_def effect_def setInterval_def poll_begin_def cap_bounds
      less_Suc_eq split: if_splits)

lemma inv_cleanup: "poller_inv w \<Longrightarrow> poller_inv (cleanup w)"
  by (auto simp: poller_inv_def cleanup_def clearInterval_def split: option.splits if_splits)

lemma inv_poll_begin: "poller_inv w \<Longrightarrow> timers w h \<noteq> None \<Longrightarrow> poller_inv (poll_begin w)"
  by (auto simp: poller_inv_def poll_begin_def)

lemma inv_drop:
  "poller_inv w \<Longrightarrow> intervalRef w \<noteq> None \<Longrightarrow> poller_inv (w\<lparr>suspended := xs\<rparr>)"
  by (auto simp: poller_inv_def)

lemma inv_rearm:
  assumes "poller_inv w" "intervalRef w = Some h" "ms \<le> 30000" "ms \<le> cap c"
  shows "poller_inv (rearm ms (w\<lparr>consecutiveNoChangeRef := c\<rparr>))"
proof -
  from assms(1,2) have h: "h \<noteq> 0" "h < nextHandle w" by (auto simp: poller_inv_def)
  have "rearm ms (w\<lparr>consecutiveNoChangeRef := c\<rparr>) =
     w\<lparr>consecutiveNoChangeRef := c,
       timers := ((timers w)(h := None))(nextHandle w := Some ms),
       nextHandle := Suc (nextHandle w), intervalRef := Some (nextHandle w)\<rparr>"
    using assms(2) h by (simp add: rearm_Some)
  then show ?thesis
    using assms h by (auto simp: poller_inv_def less_Suc_eq split: if_splits)
qed

lemma inv_lastTraceCount: "poller_inv u \<Longrightarrow> poller_inv (u\<lparr>lastTraceCountRef := n\<rparr>)"
  by (auto simp: poller_inv_def)

lemma inv_poll_resume:
  assumes "poller_inv w" "intervalRef w = Some h"
  shows "poller_inv (snd (poll_resume prev outcome count w))"
proof (cases outcome)
  case Rejected
  then show ?thesis using assms by (simp add: poll_resume_def)
next
  case Resolved
  note lt = inv_lastTraceCount
  show ?thesis
  proof (cases "count = prev")
    case False
    with Resolved show ?thesis
      using inv_rearm [OF assms, of 10000 0] by (simp add: poll_resume_def lt cap_bounds)
  next
    case True
    show ?thesis
    proof (cases "consecutiveNoChangeRef w + 1 > 3")
      case big: True
      have "poller_inv (rearm (newInterval (consecutiveNoChangeRef w + 1))
              (w\<lparr>consecutiveNoChangeRef := consecutiveNoChangeRef w + 1\<rparr>))"
        using big by (intro inv_rearm [OF assms]) (simp_all add: newInterval_bounds cap_def)
      with Resolved True big show ?thesis
        by (simp add: poll_resume_def lt Let_def)
    next
      case small: False
      have "poller_inv (w\<lparr>consecutiveNoChangeRef := consecutiveNoChangeRef w + 1\<rparr>)"
        using assms(1) small by (auto simp: poller_inv_def cap_small)
      with Resolved True small show ?thesis
        by (simp add: poll_resume_def lt Let_def)
    qed
  qed
qed

lemma inv_fire: "poller_inv w \<Longrightarrow> fire e w = Some w' \<Longrightarrow> poller_inv w'"
proof (cases e)
  case (Effect enabled)
  assume "poller_inv w" "fire e w = Some w'"
  with Effect show ?thesis by (auto simp: inv_effect split: if_splits)
next
  case Cleanup
  assume "poller_inv w" "fire e w = Some w'"
  with Cleanup show ?thesis by (auto simp: inv_cleanup split: if_splits)
next
  case (Tick h)
  assume "poller_inv w" "fire e w = Some w'"
  with Tick show ?thesis by (auto split: if_splits intro: inv_poll_begin)
next
  case (Settle i outcome count)
  assume a: "poller_inv w" "fire e w = Some w'"
  with Settle have i: "i < length (suspended w)" by (auto split: if_splits)
  then have "suspended w \<noteq> []" by auto
  with a(1) obtain h where h: "intervalRef w = Some h" by (auto simp: poller_inv_def)
  let ?w0 = "w\<lparr>suspended := take i (suspended w) @ drop (Suc i) (suspended w)\<rparr>"
  have "poller_inv ?w0" using a(1) h by (intro inv_drop) simp_all
  moreover have "intervalRef ?w0 = Some h" using h by simp
  ultimately have "poller_inv (snd (poll_resume (suspended w ! i) outcome count ?w0))"
    by (rule inv_poll_resume)
  with a(2) Settle i show ?thesis by simp
qed

lemma reachable_inv: "reachable w \<Longrightarrow> poller_inv w"
  by (induction rule: reachable.induct) (auto intro: inv_mounted inv_fire)

lemma run_reachable: "reachable w \<Longrightarrow> run es w = Some w' \<Longrightarrow> reachable w'"
  by (induction es arbitrary: w) (auto split: option.splits intro: reachable.after)

subsection \<open>Back-off and snap-back\<close>

lemma run_stable_prefix: "run stable_prefix mounted = Some stable3"
  by (simp add: poller_defs stable_prefix_def stable3_def)

lemma fire_stable3: "fire (Settle 0 Resolved 0) stable3 = Some backoff4"
  by (simp add: stable3_def backoff4_def poller_defs newInterval_4 fun_upd_twist)

lemma fire_backoff4: "fire (Tick 2) backoff4 = Some (poll_begin backoff4)"
  by (simp add: backoff4_def)

lemma fire_snap: "fire (Settle 0 Resolved 5) (poll_begin backoff4) = Some snapped"
  by (simp add: backoff4_def snapped_def poller_defs)

lemma reachable_stable3: "reachable stable3"
  using run_reachable [OF reachable.start run_stable_prefix] .

lemma reachable_backoff4_polling: "reachable (poll_begin backoff4)"
  using reachable.after [OF reachable.after [OF reachable_stable3 fire_stable3] fire_backoff4] .

lemma settle_unchanged:
  assumes "poller_inv w" "fire (Settle i Resolved (suspended w ! i)) w = Some w'"
  shows "consecutiveNoChangeRef w' = consecutiveNoChangeRef w + 1 \<and>
     (consecutiveNoChangeRef w' > 3 \<longrightarrow>
        timers w (nextHandle w) = None \<and>
        intervalRef w' = Some (nextHandle w) \<and>
        armed_period w' =
          Some (min 30000 (10000 * (1 + of_nat (consecutiveNoChangeRef w') / 3))) \<and>
        (\<forall>h. intervalRef w = Some h \<longrightarrow> timers w' h = None)) \<and>
     (consecutiveNoChangeRef w' \<le> 3 \<longrightarrow>
        timers w' = timers w \<and> intervalRef w' = intervalRef w)"
proof -
  from assms(2) have i: "i < length (suspended w)" by (auto split: if_splits)
  then have "suspended w \<noteq> []" by auto
  with assms(1) obtain h where h: "intervalRef w = Some h" "h \<noteq> 0" "h < nextHandle w"
    by (auto simp: poller_inv_def)
  from assms(1) have fresh: "timers w (nextHandle w) = None"
    by (cases "timers w (nextHandle w)") (auto simp: poller_inv_def)
  let ?w0 = "w\<lparr>suspended := take i (suspended w) @ drop (Suc i) (suspended w)\<rparr>"
  let ?c = "Suc (consecutiveNoChangeRef w)"
  from assms(2) i have w': "w' = snd (poll_resume (suspended w ! i) Resolved (suspended w ! i) ?w0)"
    by simp
  have r: "rearm (newInterval ?c) (?w0\<lparr>consecutiveNoChangeRef := ?c\<rparr>) =
        ?w0\<lparr>consecutiveNoChangeRef := ?c,
            timers := ((timers w)(h := None))(nextHandle w := Some (newInterval ?c)),
            nextHandle := Suc (nextHandle w), intervalRef := Some (nextHandle w)\<rparr>"
    using h by (simp add: rearm_Some)
  show ?thesis
  proof (cases "?c > 3")
    case True
    with w' r h fresh show ?thesis
      by (simp add: poll_resume_def armed_period_def newInterval_def)
  next
    case False
    with w' show ?thesis
      by (simp add: poll_resume_def)
  qed
qed

lemma settle_changed:
  assumes "poller_inv w" "fire (Settle i Resolved count) w = Some w'"
    and "count \<noteq> suspended w ! i"
  shows "consecutiveNoChangeRef w' = 0 \<and>
         timers w (nextHandle w) = None \<and>
         intervalRef w' = Some (nextHandle w) \<and>
         timers w' (nextHandle w) = Some 10000 \<and>
         armed_period w' = Some 10000 \<and>
         (\<forall>h. intervalRef w = Some h \<longrightarrow> timers w' h = None)"
proof -
  from assms(2) have i: "i < length (suspended w)" by (auto split: if_splits)
  then have "suspended w \<noteq> []" by auto
  with assms(1) obtain h where h: "intervalRef w = Some h" "h \<noteq> 0" "h < nextHandle w"
    by (auto simp: poller_inv_def)
  from assms(1) have fresh: "timers w (nextHandle w) = None"
    by (cases "timers w (nextHandle w)") (auto simp: poller_inv_def)
  let ?w0 = "w\<lparr>suspended := take i (suspended w) @ drop (Suc i) (suspended w)\<rparr>"
  from assms(2) i have w': "w' = snd (poll_resume (suspended w ! i) Resolved count ?w0)"
    by simp
  have "rearm 10000 (?w0\<lparr>consecutiveNoChangeRef := 0\<rparr>) =
        ?w0\<lparr>consecutiveNoChangeRef := 0,
            timers := ((timers w)(h := None))(nextHandle w := Some 10000),
            nextHandle := Suc (nextHandle w), intervalRef := Some (nextHandle w)\<rparr>"
    using h by (simp add: rearm_Some)
  with w' assms(3) h fresh show ?thesis
    by (simp add: poll_resume_def armed_period_def)
qed

text \<open>Line 42: a resolved invocation stores the count it measured.\<close>

lemma settle_stores_count:
  "fire (Settle j Resolved count) w = Some w' \<Longrightarrow> lastTraceCountRef w' = count"
  by (auto simp: poll_resume_def split: if_splits)

text \<open>Line 16: an invocation reads as \<^verbatim>\<open>previousCount\<close> what the last resolved one stored.\<close>

lemma tick_reads_count:
  "fire (Tick h) w = Some w' \<Longrightarrow> suspended w' = suspended w @ [lastTraceCountRef w]"
  by (auto simp: poll_begin_def split: if_splits)

text \<open>
  One invocation that does not overlap another and measures the count stored before it
  started.
\<close>

lemma quiet_invocation:
  assumes inv: "poller_inv w" and h: "intervalRef w = Some h" "timers w h = Some p"
  shows "\<exists>w2 p'. fire (Tick h) w = Some (poll_begin w) \<and>
           fire (Settle (length (suspended w)) Resolved (lastTraceCountRef w)) (poll_begin w) = Some w2 \<and>
           poller_inv w2 \<and>
           consecutiveNoChangeRef w2 = Suc (consecutiveNoChangeRef w) \<and>
           lastTraceCountRef w2 = lastTraceCountRef w \<and>
           armed_period w2 = Some p' \<and> p \<le> p' \<and> p' \<le> 30000 \<and>
           (3 < consecutiveNoChangeRef w2 \<longrightarrow> p' = newInterval (consecutiveNoChangeRef w2))"
proof -
  let ?c = "lastTraceCountRef w"
  let ?n = "Suc (consecutiveNoChangeRef w)"
  let ?w0 = "w\<lparr>suspended := suspended w, fetchCalls := Suc (fetchCalls w)\<rparr>"
  from inv h have p: "p \<le> 30000" "p \<le> cap (consecutiveNoChangeRef w)" "h \<noteq> 0"
    by (auto simp: poller_inv_def)
  have t: "fire (Tick h) w = Some (poll_begin w)"
    using h(2) by simp
  have inv1: "poller_inv (poll_begin w)"
    using inv h(2) by (intro inv_poll_begin [of w h]) simp_all
  obtain w2 where w2: "w2 = snd (poll_resume ?c Resolved ?c ?w0)" by simp
  have s: "fire (Settle (length (suspended w)) Resolved ?c) (poll_begin w) = Some w2"
    by (simp add: poll_begin_def w2)
  have inv2: "poller_inv w2" using inv1 s by (rule inv_fire)
  have l: "lastTraceCountRef w2 = ?c" using s by (rule settle_stores_count)
  show ?thesis
  proof (cases "?n > 3")
    case True
    have "rearm (newInterval ?n) (?w0\<lparr>consecutiveNoChangeRef := ?n\<rparr>) =
        ?w0\<lparr>consecutiveNoChangeRef := ?n,
            timers := ((timers w)(h := None))(nextHandle w := Some (newInterval ?n)),
            nextHandle := Suc (nextHandle w), intervalRef := Some (nextHandle w)\<rparr>"
      using h p by (simp add: rearm_Some)
    with w2 True have a: "consecutiveNoChangeRef w2 = ?n" "armed_period w2 = Some (newInterval ?n)"
      by (simp_all add: poll_resume_def armed_period_def)
    have "p \<le> newInterval ?n"
      using p(2) cap_Suc [of "consecutiveNoChangeRef w"] True by (simp add: cap_def)
    with a t s inv2 l show ?thesis by (simp add: newInterval_bounds del: fire.simps)
  next
    case False
    with w2 h have a: "consecutiveNoChangeRef w2 = ?n" "armed_period w2 = Some p"
      by (simp_all add: poll_resume_def armed_period_def)
    with False t s inv2 l p show ?thesis by (simp del: fire.simps)
  qed
qed

lemma quiet_polls_periods:
  "poller_inv w \<Longrightarrow> armed_period w = Some p \<Longrightarrow> lastTraceCountRef w = count \<Longrightarrow>
   \<exists>ws ps. quiet_polls count n w = Some ws \<and> length ws = n \<and>
     (\<forall>k < n. consecutiveNoChangeRef (ws ! k) = consecutiveNoChangeRef w + Suc k \<and>
        (3 < consecutiveNoChangeRef (ws ! k) \<longrightarrow>
           armed_period (ws ! k) = Some (newInterval (consecutiveNoChangeRef (ws ! k))))) \<and>
     map armed_period ws = map Some ps \<and> sorted (p # ps) \<and> (\<forall>q \<in> set (p # ps). q \<le> 30000)"
proof (induction n arbitrary: w p)
  case 0
  then obtain h where "intervalRef w = Some h" "timers w h = Some p"
    by (auto simp: armed_period_def split: option.splits)
  with 0(1) have "p \<le> 30000" by (auto simp: poller_inv_def)
  then show ?case by simp
next
  case (Suc n)
  from Suc.prems(2) obtain h where h: "intervalRef w = Some h" "timers w h = Some p"
    by (auto simp: armed_period_def split: option.splits)
  from quiet_invocation [OF Suc.prems(1) h] Suc.prems(3) obtain w2 p' where
    w2: "fire (Tick h) w = Some (poll_begin w)"
      "fire (Settle (length (suspended w)) Resolved count) (poll_begin w) = Some w2"
      "poller_inv w2"
      "consecutiveNoChangeRef w2 = Suc (consecutiveNoChangeRef w)"
      "lastTraceCountRef w2 = count"
      "armed_period w2 = Some p'" "p \<le> p'" "p' \<le> 30000"
      "3 < consecutiveNoChangeRef w2 \<longrightarrow> p' = newInterval (consecutiveNoChangeRef w2)"
    by blast
  from Suc.IH [OF w2(3) w2(6) w2(5)] obtain ws ps where
    ih: "quiet_polls count n w2 = Some ws" "length ws = n"
      "\<forall>k < n. consecutiveNoChangeRef (ws ! k) = consecutiveNoChangeRef w2 + Suc k \<and>
        (3 < consecutiveNoChangeRef (ws ! k) \<longrightarrow>
           armed_period (ws ! k) = Some (newInterval (consecutiveNoChangeRef (ws ! k))))"
      "map armed_period ws = map Some ps" "sorted (p' # ps)" "\<forall>q \<in> set (p' # ps). q \<le> 30000"
    by blast
  have run: "quiet_polls count (Suc n) w = Some (w2 # ws)"
    using h(1) w2(1,2) ih(1) by (simp del: fire.simps)
  have len: "length (w2 # ws) = Suc n" using ih(2) by simp
  have each: "\<forall>k < Suc n. consecutiveNoChangeRef ((w2 # ws) ! k) = consecutiveNoChangeRef w + Suc k \<and>
        (3 < consecutiveNoChangeRef ((w2 # ws) ! k) \<longrightarrow>
           armed_period ((w2 # ws) ! k) = Some (newInterval (consecutiveNoChangeRef ((w2 # ws) ! k))))"
  proof (intro allI impI)
    fix k assume k: "k < Suc n"
    show "consecutiveNoChangeRef ((w2 # ws) ! k) = consecutiveNoChangeRef w + Suc k \<and>
        (3 < consecutiveNoChangeRef ((w2 # ws) ! k) \<longrightarrow>
           armed_period ((w2 # ws) ! k) = Some (newInterval (consecutiveNoChangeRef ((w2 # ws) ! k))))"
    proof (cases k)
      case 0
      with w2(4,6,9) show ?thesis by simp
    next
      case (Suc k')
      with k ih(3) w2(4) show ?thesis by simp
    qed
  qed
  have per: "map armed_period (w2 # ws) = map Some (p' # ps)"
    using w2(6) ih(4) by simp
  have srt: "sorted (p # p' # ps)" using w2(7) ih(5) by auto
  have bnd: "\<forall>q \<in> set (p # p' # ps). q \<le> 30000" using w2(7,8) ih(6) by auto
  from run len each per srt bnd show ?case by blast
qed

text \<open>
  Claim C1, amended. In every reachable state, when the fetch of a suspended invocation
  resolves and the count equals the \<^verbatim>\<open>previousCount\<close> that invocation read when it started,
  the counter grows by 1; when it is then above 3, the timer named by
  \<^verbatim>\<open>intervalRef.current\<close> is cancelled and a new one is armed with period
  \<open>min 30000 (10000 * (1 + counter / 3))\<close>; otherwise the timers are left as they are.
  When invocations do not overlap, \<^verbatim>\<open>previousCount\<close> is the signal of the prior invocation:
  after an invocation has resolved with \<open>count\<close> and none is left suspended, any number \<open>n\<close>
  of invocations in a row that each measure \<open>count\<close> again can run; the \<open>k\<close>-th of them
  leaves the counter \<open>k\<close> higher, with the period above once the counter exceeds 3, and
  the armed periods never decrease and never exceed 30000.
\<close>

theorem backoff_on_unchanged_count:
  assumes "reachable w"
  shows "(\<forall>i w'. fire (Settle i Resolved (suspended w ! i)) w = Some w' \<longrightarrow>
            consecutiveNoChangeRef w' = consecutiveNoChangeRef w + 1 \<and>
            (consecutiveNoChangeRef w' > 3 \<longrightarrow>
               timers w (nextHandle w) = None \<and>
               intervalRef w' = Some (nextHandle w) \<and>
               armed_period w' =
                 Some (min 30000 (10000 * (1 + of_nat (consecutiveNoChangeRef w') / 3))) \<and>
               (\<forall>h. intervalRef w = Some h \<longrightarrow> timers w' h = None)) \<and>
            (consecutiveNoChangeRef w' \<le> 3 \<longrightarrow>
               timers w' = timers w \<and> intervalRef w' = intervalRef w)) \<and>
         (\<forall>j count w1 p n.
            fire (Settle j Resolved count) w = Some w1 \<and> suspended w1 = [] \<and>
            armed_period w1 = Some p \<longrightarrow>
            (\<exists>ws ps. quiet_polls count n w1 = Some ws \<and> length ws = n \<and>
               (\<forall>k < n.
                  consecutiveNoChangeRef (ws ! k) = consecutiveNoChangeRef w1 + Suc k \<and>
                  (3 < consecutiveNoChangeRef (ws ! k) \<longrightarrow>
                     armed_period (ws ! k) =
                       Some (min 30000
                              (10000 * (1 + of_nat (consecutiveNoChangeRef (ws ! k)) / 3))))) \<and>
               map armed_period ws = map Some ps \<and> sorted (p # ps) \<and>
               (\<forall>q \<in> set (p # ps). q \<le> 30000)))"
proof -
  from assms have inv: "poller_inv w" by (rule reachable_inv)
  have second: "\<exists>ws ps. quiet_polls count n w1 = Some ws \<and> length ws = n \<and>
               (\<forall>k < n.
                  consecutiveNoChangeRef (ws ! k) = consecutiveNoChangeRef w1 + Suc k \<and>
                  (3 < consecutiveNoChangeRef (ws ! k) \<longrightarrow>
                     armed_period (ws ! k) =
                       Some (min 30000
                              (10000 * (1 + of_nat (consecutiveNoChangeRef (ws ! k)) / 3))))) \<and>
               map armed_period ws = map Some ps \<and> sorted (p # ps) \<and>
               (\<forall>q \<in> set (p # ps). q \<le> 30000)"
    if a: "fire (Settle j Resolved count) w = Some w1 \<and> suspended w1 = [] \<and>
            armed_period w1 = Some p" for j count w1 p n
  proof -
    from a have f: "fire (Settle j Resolved count) w = Some w1" and ap: "armed_period w1 = Some p"
      by simp_all
    have inv1: "poller_inv w1" using inv f by (rule inv_fire)
    have l: "lastTraceCountRef w1 = count" using f by (rule settle_stores_count)
    from quiet_polls_periods [OF inv1 ap l, of n] show ?thesis
      by (simp only: newInterval_def)
  qed
  from settle_unchanged [OF inv] second show ?thesis by blast
qed

text \<open>
  Claim C2, amended. In every reachable state, when the fetch of a suspended invocation
  resolves and the count differs from the \<^verbatim>\<open>previousCount\<close> that invocation read when it
  started, the counter becomes 0, the timer named by \<^verbatim>\<open>intervalRef.current\<close> is cancelled and
  a new timer, with a fresh handle, is armed with period 10000, whatever the period was.
  When invocations do not overlap, \<^verbatim>\<open>previousCount\<close> is the signal of the prior invocation:
  after an invocation has resolved with \<open>prior\<close> and none is left suspended, the invocation
  that the next timer firing starts can resolve, and when it measures a count other than
  \<open>prior\<close> it resets the counter and rearms at 10000 in that way.
\<close>

theorem snap_back_on_changed_count:
  assumes "reachable w"
  shows "(\<forall>i count w'.
            fire (Settle i Resolved count) w = Some w' \<and> count \<noteq> suspended w ! i \<longrightarrow>
            consecutiveNoChangeRef w' = 0 \<and>
            timers w (nextHandle w) = None \<and>
            intervalRef w' = Some (nextHandle w) \<and>
            timers w' (nextHandle w) = Some 10000 \<and>
            armed_period w' = Some 10000 \<and>
            (\<forall>h. intervalRef w = Some h \<longrightarrow> timers w' h = None)) \<and>
         (\<forall>j prior w1 h w2 count.
            fire (Settle j Resolved prior) w = Some w1 \<and> suspended w1 = [] \<and>
            fire (Tick h) w1 = Some w2 \<and> count \<noteq> prior \<longrightarrow>
            (\<exists>w3. fire (Settle 0 Resolved count) w2 = Some w3 \<and>
               consecutiveNoChangeRef w3 = 0 \<and>
               timers w2 (nextHandle w2) = None \<and>
               intervalRef w3 = Some (nextHandle w2) \<and>
               timers w3 (nextHandle w2) = Some 10000 \<and>
               armed_period w3 = Some 10000 \<and>
               (\<forall>h'. intervalRef w2 = Some h' \<longrightarrow> timers w3 h' = None)))"
proof -
  from assms have inv: "poller_inv w" by (rule reachable_inv)
  have second: "\<exists>w3. fire (Settle 0 Resolved count) w2 = Some w3 \<and>
               consecutiveNoChangeRef w3 = 0 \<and>
               timers w2 (nextHandle w2) = None \<and>
               intervalRef w3 = Some (nextHandle w2) \<and>
               timers w3 (nextHandle w2) = Some 10000 \<and>
               armed_period w3 = Some 10000 \<and>
               (\<forall>h'. intervalRef w2 = Some h' \<longrightarrow> timers w3 h' = None)"
    if a: "fire (Settle j Resolved prior) w = Some w1 \<and> suspended w1 = [] \<and>
            fire (Tick h) w1 = Some w2 \<and> count \<noteq> prior" for j prior w1 h w2 count
  proof -
    from a have f: "fire (Settle j Resolved prior) w = Some w1" and e: "suspended w1 = []"
      and t: "fire (Tick h) w1 = Some w2" and ne: "count \<noteq> prior"
      by simp_all
    have inv2: "poller_inv w2" using inv_fire [OF inv f] t by (rule inv_fire)
    from settle_stores_count [OF f] tick_reads_count [OF t] e
    have s: "suspended w2 = [prior]" by simp
    then obtain w3 where w3: "fire (Settle 0 Resolved count) w2 = Some w3" by simp
    from s ne have "count \<noteq> suspended w2 ! 0" by simp
    from settle_changed [OF inv2 w3 this] w3 show ?thesis by blast
  qed
  have first: "consecutiveNoChangeRef w' = 0 \<and>
            timers w (nextHandle w) = None \<and>
            intervalRef w' = Some (nextHandle w) \<and>
            timers w' (nextHandle w) = Some 10000 \<and>
            armed_period w' = Some 10000 \<and>
            (\<forall>h. intervalRef w = Some h \<longrightarrow> timers w' h = None)"
    if "fire (Settle i Resolved count) w = Some w' \<and> count \<noteq> suspended w ! i" for i count w'
    using that settle_changed [OF inv, of i count w'] by blast
  from first second show ?thesis by blast
qed


subsection \<open>Overlapping invocations\<close>

lemma run_overlap_prefix: "run overlap_prefix mounted = Some overlapped"
  by (simp add: poller_defs overlap_prefix_def overlapped_def numeral_2_eq_2 numeral_3_eq_3)

text \<open>
  Claim C1 as stated fails when invocations overlap. The initial invocation and the one
  started by the first timer firing have both read \<^verbatim>\<open>previousCount\<close> 0. The first resolves
  with 3 entries in the document and stores 3. The second resolves with 3 entries as well:
  its signal equals the signal of the prior invocation, but it is compared with 0, and the
  counter is reset to 0 where the claim has it grow to 1.
\<close>

theorem unchanged_signal_overlap_counterexample:
  "run overlap_prefix mounted = Some overlapped \<and>
   lastTraceCountRef overlapped = 3 \<and>
   consecutiveNoChangeRef overlapped = 0 \<and>
   map_option lastTraceCountRef (fire (Settle 0 Resolved 3) overlapped) = Some 3 \<and>
   map_option consecutiveNoChangeRef (fire (Settle 0 Resolved 3) overlapped) = Some 0"
  by (simp add: run_overlap_prefix) (simp add: overlapped_def poller_defs)

text \<open>
  Claim C2 as stated fails when invocations overlap. From the same state the second
  invocation resolves with 0 entries: its signal differs from the 3 of the prior
  invocation, but equals its \<^verbatim>\<open>previousCount\<close> 0, so the counter grows to 1 and nothing is
  rearmed: the handle, the next handle and the period are as before.
\<close>

theorem changed_signal_overlap_counterexample:
  "run overlap_prefix mounted = Some overlapped \<and>
   lastTraceCountRef overlapped = 3 \<and>
   intervalRef overlapped = Some 2 \<and> nextHandle overlapped = 3 \<and>
   map_option consecutiveNoChangeRef (fire (Settle 0 Resolved 0) overlapped) = Some 1 \<and>
   map_option intervalRef (fire (Settle 0 Resolved 0) overlapped) = Some (Some 2) \<and>
   map_option nextHandle (fire (Settle 0 Resolved 0) overlapped) = Some 3 \<and>
   armed_period overlapped = Some 10000 \<and>
   map_option armed_period (fire (Settle 0 Resolved 0) overlapped) = Some (Some 10000)"
  by (simp add: run_overlap_prefix) (simp add: overlapped_def poller_defs)

subsection \<open>Instances on the example runs\<close>

theorem backoff_on_unchanged_count_witness:
  "reachable stable3 \<and>
   fire (Settle 0 Resolved (suspended stable3 ! 0)) stable3 = Some backoff4 \<and>
   consecutiveNoChangeRef backoff4 = consecutiveNoChangeRef stable3 + 1 \<and>
   consecutiveNoChangeRef backoff4 > 3 \<and>
   intervalRef backoff4 = Some (nextHandle stable3) \<and>
   armed_period backoff4 = Some (70000 / 3) \<and>
   intervalRef stable3 = Some 1 \<and> timers backoff4 1 = None \<and>
   fire (Settle 0 Resolved 0) stable3 = Some backoff4 \<and> suspended backoff4 = [] \<and>
   (\<exists>ws ps. quiet_polls 0 2 backoff4 = Some ws \<and> length ws = 2 \<and>
      consecutiveNoChangeRef (ws ! 0) = 5 \<and> armed_period (ws ! 0) = Some (80000 / 3) \<and>
      consecutiveNoChangeRef (ws ! 1) = 6 \<and> armed_period (ws ! 1) = Some 30000 \<and>
      map armed_period ws = map Some ps \<and> sorted (70000 / 3 # ps) \<and>
      (\<forall>q \<in> set (70000 / 3 # ps). q \<le> 30000))"
proof -
  note th = backoff_on_unchanged_count [OF reachable_stable3]
  have s0: "suspended stable3 ! 0 = 0" by (simp add: stable3_def)
  have f: "fire (Settle 0 Resolved (suspended stable3 ! 0)) stable3 = Some backoff4"
    by (simp only: s0 fire_stable3)
  have c: "consecutiveNoChangeRef backoff4 = 4" "consecutiveNoChangeRef stable3 = 3"
    "nextHandle stable3 = 2" "intervalRef stable3 = Some 1" "suspended backoff4 = []"
    "armed_period backoff4 = Some (70000 / 3)"
    by (simp_all add: backoff4_def stable3_def armed_period_def)
  from th f
  have a: "consecutiveNoChangeRef backoff4 = consecutiveNoChangeRef stable3 + 1"
    and b: "consecutiveNoChangeRef backoff4 > 3 \<longrightarrow>
               timers stable3 (nextHandle stable3) = None \<and>
               intervalRef backoff4 = Some (nextHandle stable3) \<and>
               armed_period backoff4 =
                 Some (min 30000 (10000 * (1 + of_nat (consecutiveNoChangeRef backoff4) / 3))) \<and>
               (\<forall>h. intervalRef stable3 = Some h \<longrightarrow> timers backoff4 h = None)"
    by blast+
  from b c have first: "intervalRef backoff4 = Some (nextHandle stable3) \<and>
      armed_period backoff4 = Some (70000 / 3) \<and> timers backoff4 1 = None"
    by simp
  from th fire_stable3 c(5,6)
  obtain ws ps where q: "quiet_polls 0 2 backoff4 = Some ws" "length ws = 2"
    "\<forall>k < 2. consecutiveNoChangeRef (ws ! k) = consecutiveNoChangeRef backoff4 + Suc k \<and>
        (3 < consecutiveNoChangeRef (ws ! k) \<longrightarrow>
           armed_period (ws ! k) =
             Some (min 30000 (10000 * (1 + of_nat (consecutiveNoChangeRef (ws ! k)) / 3))))"
    "map armed_period ws = map Some ps" "sorted (70000 / 3 # ps)"
    "\<forall>q \<in> set (70000 / 3 # ps). q \<le> 30000"
    by blast
  have k0: "(0::nat) < 2" and k1: "(1::nat) < 2" by simp_all
  from q(3) k0 have "consecutiveNoChangeRef (ws ! 0) = consecutiveNoChangeRef backoff4 + Suc 0 \<and>
        (3 < consecutiveNoChangeRef (ws ! 0) \<longrightarrow>
           armed_period (ws ! 0) =
             Some (min 30000 (10000 * (1 + of_nat (consecutiveNoChangeRef (ws ! 0)) / 3))))"
    by blast
  with c(1) have w0: "consecutiveNoChangeRef (ws ! 0) = 5" "armed_period (ws ! 0) = Some (80000 / 3)"
    by simp_all
  from q(3) k1 have "consecutiveNoChangeRef (ws ! 1) = consecutiveNoChangeRef backoff4 + Suc 1 \<and>
        (3 < consecutiveNoChangeRef (ws ! 1) \<longrightarrow>
           armed_period (ws ! 1) =
             Some (min 30000 (10000 * (1 + of_nat (consecutiveNoChangeRef (ws ! 1)) / 3))))"
    by blast
  with c(1) have w1: "consecutiveNoChangeRef (ws ! 1) = 6" "armed_period (ws ! 1) = Some 30000"
    by simp_all
  from q(1,2,4,5,6) w0 w1
  have second: "\<exists>ws ps. quiet_polls 0 2 backoff4 = Some ws \<and> length ws = 2 \<and>
      consecutiveNoChangeRef (ws ! 0) = 5 \<and> armed_period (ws ! 0) = Some (80000 / 3) \<and>
      consecutiveNoChangeRef (ws ! 1) = 6 \<and> armed_period (ws ! 1) = Some 30000 \<and>
      map armed_period ws = map Some ps \<and> sorted (70000 / 3 # ps) \<and>
      (\<forall>q \<in> set (70000 / 3 # ps). q \<le> 30000)"
    by blast
  from reachable_stable3 f a c first fire_stable3 second show ?thesis
    by (simp del: fire.simps quiet_polls.simps)
qed

theorem snap_back_on_changed_count_witness:
  "reachable (poll_begin backoff4) \<and>
   fire (Settle 0 Resolved 5) (poll_begin backoff4) = Some snapped \<and>
   5 \<noteq> suspended (poll_begin backoff4) ! 0 \<and>
   armed_period (poll_begin backoff4) = Some (70000 / 3) \<and>
   consecutiveNoChangeRef snapped = 0 \<and>
   intervalRef snapped = Some 3 \<and>
   timers snapped 3 = Some 10000 \<and>
   armed_period snapped = Some 10000 \<and>
   intervalRef (poll_begin backoff4) = Some 2 \<and> timers snapped 2 = None \<and>
   reachable stable3 \<and>
   fire (Settle 0 Resolved 0) stable3 = Some backoff4 \<and> suspended backoff4 = [] \<and>
   fire (Tick 2) backoff4 = Some (poll_begin backoff4) \<and> (5::nat) \<noteq> 0 \<and>
   (\<exists>w3. fire (Settle 0 Resolved 5) (poll_begin backoff4) = Some w3 \<and>
      consecutiveNoChangeRef w3 = 0 \<and> armed_period w3 = Some 10000 \<and>
      intervalRef w3 = Some 3)"
proof -
  have ne: "5 \<noteq> suspended (poll_begin backoff4) ! 0"
    by (simp add: poll_begin_def backoff4_def)
  have c: "intervalRef (poll_begin backoff4) = Some 2" "nextHandle (poll_begin backoff4) = 3"
    "armed_period (poll_begin backoff4) = Some (70000 / 3)" "suspended backoff4 = []"
    by (simp_all add: poll_begin_def backoff4_def armed_period_def)
  from snap_back_on_changed_count [OF reachable_backoff4_polling] fire_snap ne
  have first: "consecutiveNoChangeRef snapped = 0 \<and>
            timers (poll_begin backoff4) (nextHandle (poll_begin backoff4)) = None \<and>
            intervalRef snapped = Some (nextHandle (poll_begin backoff4)) \<and>
            timers snapped (nextHandle (poll_begin backoff4)) = Some 10000 \<and>
            armed_period snapped = Some 10000 \<and>
            (\<forall>h. intervalRef (poll_begin backoff4) = Some h \<longrightarrow> timers snapped h = None)"
    by blast
  have n50: "(5::nat) \<noteq> 0" by simp
  from snap_back_on_changed_count [OF reachable_stable3] fire_stable3 c(4) fire_backoff4 n50
  obtain w3 where w3: "fire (Settle 0 Resolved 5) (poll_begin backoff4) = Some w3"
    "consecutiveNoChangeRef w3 = 0" "intervalRef w3 = Some (nextHandle (poll_begin backoff4))"
    "armed_period w3 = Some 10000"
    by blast
  from w3 c(2) have second: "\<exists>w3. fire (Settle 0 Resolved 5) (poll_begin backoff4) = Some w3 \<and>
      consecutiveNoChangeRef w3 = 0 \<and> armed_period w3 = Some 10000 \<and>
      intervalRef w3 = Some 3"
    by auto
  from first c reachable_backoff4_polling reachable_stable3 fire_snap ne fire_stable3
    fire_backoff4 second
  show ?thesis by (simp del: fire.simps)
qed

subsection \<open>A fetch that fails\<close>

text \<open>
  Claim C7 as stated fails. The promise of \<^verbatim>\<open>poll\<close> is rejected when the fetch is, and the
  cycle does not rearm: from the state with the period at 70000/3 and one invocation
  suspended, a rejected fetch leaves handle 2 and its period, where a resolved one with
  the same count arms handle 3 at 10000.
\<close>

theorem fetch_rejection_not_swallowed:
  "fst (poll_resume 0 Rejected 5 backoff4) = Failed \<and>
   map_option armed_period (fire (Settle 0 Rejected 5) (poll_begin backoff4)) =
     Some (Some (70000 / 3)) \<and>
   map_option intervalRef (fire (Settle 0 Rejected 5) (poll_begin backoff4)) = Some (Some 2) \<and>
   map_option armed_period (fire (Settle 0 Resolved 5) (poll_begin backoff4)) =
     Some (Some 10000) \<and>
   map_option intervalRef (fire (Settle 0 Resolved 5) (poll_begin backoff4)) = Some (Some 3)"
  by (simp add: fire_snap del: fire.simps)
    (simp add: poll_resume_def poll_begin_def backoff4_def snapped_def armed_period_def)

text \<open>
  Claim C7, amended. When the fetch is rejected, the invocation of \<^verbatim>\<open>poll\<close> ends at its await
  with a rejected promise and the state as it was: counter, last count, handle and timers
  are unchanged, so nothing is rearmed on that cycle, and every timer that could fire
  before can still fire.
\<close>

theorem fetch_rejection_skips_cycle:
  "poll_resume prev Rejected count w = (Failed, w) \<and>
   (i < length (suspended w) \<longrightarrow>
      (\<exists>w'. fire (Settle i Rejected count) w = Some w' \<and>
            timers w' = timers w \<and> intervalRef w' = intervalRef w \<and>
            consecutiveNoChangeRef w' = consecutiveNoChangeRef w \<and>
            lastTraceCountRef w' = lastTraceCountRef w \<and>
            armed_period w' = armed_period w \<and>
            (\<forall>h. fire (Tick h) w' = None \<longleftrightarrow> fire (Tick h) w = None)))"
  by (auto simp: poll_resume_def armed_period_def split: option.splits)

theorem fetch_rejection_skips_cycle_witness:
  "poll_resume 0 Rejected 5 backoff4 = (Failed, backoff4) \<and>
   0 < length (suspended (poll_begin backoff4)) \<and>
   (\<exists>w'. fire (Settle 0 Rejected 5) (poll_begin backoff4) = Some w' \<and>
         timers w' = timers (poll_begin backoff4) \<and>
         consecutiveNoChangeRef w' = 4 \<and>
         armed_period w' = Some (70000 / 3) \<and>
         fire (Tick 2) w' \<noteq> None)"
proof -
  have l: "0 < length (suspended (poll_begin backoff4))"
    by (simp add: poll_begin_def)
  have c: "consecutiveNoChangeRef (poll_begin backoff4) = 4"
    "armed_period (poll_begin backoff4) = Some (70000 / 3)"
    "fire (Tick 2) (poll_begin backoff4) \<noteq> None"
    by (simp_all add: poll_begin_def backoff4_def armed_period_def)
  from fetch_rejection_skips_cycle [of 0 5 backoff4 0]
  have a: "poll_resume 0 Rejected 5 backoff4 = (Failed, backoff4)" by blast
  from fetch_rejection_skips_cycle [of 0 5 "poll_begin backoff4" 0] l
  obtain w' where w': "fire (Settle 0 Rejected 5) (poll_begin backoff4) = Some w'"
    "timers w' = timers (poll_begin backoff4)"
    "consecutiveNoChangeRef w' = consecutiveNoChangeRef (poll_begin backoff4)"
    "armed_period w' = armed_period (poll_begin backoff4)"
    "\<forall>h. fire (Tick h) w' = None \<longleftrightarrow> fire (Tick h) (poll_begin backoff4) = None"
    by blast
  from spec [OF w'(5), of 2] c(3) have t: "fire (Tick 2) w' \<noteq> None" by simp
  have x3: "consecutiveNoChangeRef w' = 4" using w'(3) c(1) by simp
  have x4: "armed_period w' = Some (70000 / 3)" using w'(4) c(2) by simp
  from w'(1) w'(2) x3 x4 t
  have "\<exists>w'. fire (Settle 0 Rejected 5) (poll_begin backoff4) = Some w' \<and>
         timers w' = timers (poll_begin backoff4) \<and>
         consecutiveNoChangeRef w' = 4 \<and>
         armed_period w' = Some (70000 / 3) \<and>
         fire (Tick 2) w' \<noteq> None"
    by blast
  with a l show ?thesis by blast
qed

section \<open>Properties of the change signal\<close>

lemma querySelectorAll_icon: "querySelectorAll ''data-trace-id'' (icon cls d) = []"
  by (simp add: icon_def)

lemma querySelectorAll_trace_entry:
  "querySelectorAll ''data-trace-id'' (trace_entry sel t) = []"
  by (simp add: trace_entry_def querySelectorAll_icon)

lemma querySelectorAll_empty_notice: "querySelectorAll ''data-trace-id'' empty_notice = []"
  by (simp add: empty_notice_def querySelectorAll_icon)

lemma currentCount_TraceList: "currentCount (TraceList traces sel) = 0"
  by (simp add: currentCount_def TraceList_def rendered_entries_def
      querySelectorAll_trace_entry querySelectorAll_empty_notice)

text \<open>
  Claim C8. The claim is that the count the poller measures equals the number of rendered
  trace entries. No element rendered by \<^verbatim>\<open>TraceList\<close> carries the attribute
  \<^verbatim>\<open>data-trace-id\<close>: with two entries rendered the poller measures 0, as it does for the empty
  list.
\<close>

theorem change_signal_misses_entries:
  "length (rendered_entries None example_traces) = 2 \<and>
   currentCount (TraceList example_traces None) = 0 \<and>
   currentCount (TraceList [] None) = 0"
  by (simp add: currentCount_TraceList rendered_entries_def example_traces_def)

end
